theory Spec2Isabelle
  imports Complex_Main
begin

section \<open>Camera track resampling of demo\_analysis.py\<close>

text \<open>
  The development embeds \<^verbatim>\<open>demo_analysis.py\<close>: the angle interpolation
  (\<^verbatim>\<open>interpolate_angles\<close>), the resampler (\<^verbatim>\<open>resample_positions\<close>) and the
  extraction and serialisation done by \<^verbatim>\<open>analyze_demo\<close>.

  Numbers. Python's \<^verbatim>\<open>float\<close> and numpy's \<^verbatim>\<open>float64\<close> are embedded as
  \<^typ>\<open>real\<close>: every arithmetic operation is exact, there is no rounding, no NaN, no
  infinity and no negative zero. Where the source reaches a non-finite value (a numpy
  division by a zero rate) or raises, the embedding returns an error value.
\<close>

subsection \<open>Errors and poses\<close>

datatype error = IndexError | ZeroDivisionError | ValueError

text \<open>A pose is the 6-tuple that \<^verbatim>\<open>analyze_demo\<close> appends; \<open>chan p i\<close> is \<^verbatim>\<open>p[i]\<close>.\<close>

type_synonym pose = "real \<times> real \<times> real \<times> real \<times> real \<times> real"

fun chan :: "pose \<Rightarrow> nat \<Rightarrow> real" where
  "chan (c0, c1, c2, c3, c4, c5) i =
     (if i = 0 then c0 else if i = 1 then c1 else if i = 2 then c2
      else if i = 3 then c3 else if i = 4 then c4 else c5)"

text \<open>\<^verbatim>\<open>pos_array[:, i]\<close>: channel \<open>i\<close> of every pose, in order.\<close>

definition column :: "pose list \<Rightarrow> nat \<Rightarrow> real list" where
  "column pos_array i = map (\<lambda>p. chan p i) pos_array"

subsection \<open>The numpy operations used\<close>

text \<open>\<^verbatim>\<open>np.arange(n) / source_fps\<close>: the time of every source frame.\<close>

definition frame_times :: "nat \<Rightarrow> real \<Rightarrow> real list" where
  "frame_times n source_fps = map (\<lambda>i. real i / source_fps) [0..<n]"

text \<open>
  \<^verbatim>\<open>np.arange(0, stop, step)\<close>: numpy allocates \<open>ceil((stop - 0) / step)\<close> entries
  (none when that is negative) and fills entry \<open>k\<close> with \<open>0 + k * step\<close>.
\<close>

definition np_arange :: "real \<Rightarrow> real \<Rightarrow> real list" where
  "np_arange stop step = map (\<lambda>k. real k * step) [0..<nat \<lceil>stop / step\<rceil>]"

text \<open>
  \<^verbatim>\<open>np.interp(x, xp, fp)\<close> at one point. Left of the first sample point the result
  is \<open>fp[0]\<close>, right of the last it is \<open>fp[-1]\<close>; otherwise numpy searches the
  interval \<open>xp[j] \<le> x < xp[j+1]\<close> and returns
  \<open>slope * (x - xp[j]) + fp[j]\<close>, and \<open>fp[-1]\<close> at the last sample point itself.
  numpy finds \<open>j\<close> by binary search and does not check that \<open>xp\<close> increases;
  \<open>interp_seg\<close> searches from the left, which is the same interval for increasing
  \<open>xp\<close> (the only case the resampler produces with a positive source rate).
\<close>

fun interp_seg :: "real list \<Rightarrow> real list \<Rightarrow> real \<Rightarrow> real" where
  "interp_seg (x0 # x1 # xp) (y0 # y1 # fp) x =
     (if x < x1 then (y1 - y0) / (x1 - x0) * (x - x0) + y0
      else interp_seg (x1 # xp) (y1 # fp) x)"
| "interp_seg xp (y0 # fp) x = y0"
| "interp_seg xp [] x = 0"

definition interp_point :: "real list \<Rightarrow> real list \<Rightarrow> real \<Rightarrow> real" where
  "interp_point xp fp x =
     (if x < hd xp then hd fp
      else if last xp < x then last fp
      else interp_seg xp fp x)"

text \<open>
  The whole call: numpy raises \<^verbatim>\<open>ValueError\<close> for an empty \<open>xp\<close> and for
  \<open>xp\<close> and \<open>fp\<close> of different lengths.
\<close>

definition np_interp :: "real list \<Rightarrow> real list \<Rightarrow> real list \<Rightarrow> error + real list" where
  "np_interp x xp fp =
     (if xp = [] \<or> length xp \<noteq> length fp then Inl ValueError
      else Inr (map (interp_point xp fp) x))"

text \<open>
  \<^verbatim>\<open>a % m\<close> on floats, Python's and numpy's floored remainder: the result has the
  sign of \<open>m\<close>.
\<close>

definition py_mod :: "real \<Rightarrow> real \<Rightarrow> real" where
  "py_mod a m = a - m * of_int \<lfloor>a / m\<rfloor>"

subsection \<open>interpolate\_angles\<close>

text \<open>\<^verbatim>\<open>angles[i:] -= 360\<close> and \<^verbatim>\<open>angles[i:] += 360\<close>, on the array's value.\<close>

definition slice_sub :: "nat \<Rightarrow> real \<Rightarrow> real list \<Rightarrow> real list" where
  "slice_sub i d angles = take i angles @ map (\<lambda>v. v - d) (drop i angles)"

definition slice_add :: "nat \<Rightarrow> real \<Rightarrow> real list \<Rightarrow> real list" where
  "slice_add i d angles = take i angles @ map (\<lambda>v. v + d) (drop i angles)"

text \<open>One iteration of the loop over \<open>i\<close>, reading the array as it is at that moment.\<close>

definition unwrap_step :: "real list \<Rightarrow> nat \<Rightarrow> real list" where
  "unwrap_step angles i =
     (let diff = angles ! i - angles ! (i - 1) in
      if \<bar>diff\<bar> > 180 then
        (if diff > 0 then slice_sub i 360 angles else slice_add i 360 angles)
      else angles)"

text \<open>\<^verbatim>\<open>for i in range(1, len(angles))\<close>.\<close>

definition unwrap :: "real list \<Rightarrow> real list" where
  "unwrap angles = foldl unwrap_step angles [1..<length angles]"

definition interpolate_angles :: "real list \<Rightarrow> real list \<Rightarrow> real list \<Rightarrow> error + real list" where
  "interpolate_angles src_times angles target_times =
     (case np_interp target_times src_times (unwrap angles) of
        Inl e \<Rightarrow> Inl e
      | Inr ys \<Rightarrow> Inr (map (\<lambda>y. py_mod y 360) ys))"

subsection \<open>resample\_positions\<close>

text \<open>
  The six interpolated columns are written into \<^verbatim>\<open>resampled\<close> and read back row
  by row (\<^verbatim>\<open>tolist\<close>): row \<open>k\<close> holds entry \<open>k\<close> of every column.
\<close>

definition rows :: "nat \<Rightarrow> real list list \<Rightarrow> pose list" where
  "rows m cols =
     map (\<lambda>k. (cols ! 0 ! k, cols ! 1 ! k, cols ! 2 ! k, cols ! 3 ! k, cols ! 4 ! k, cols ! 5 ! k))
       [0..<m]"

text \<open>Running the six column computations in order, stopping at the first that raises.\<close>

fun collect :: "(error + 'a) list \<Rightarrow> error + 'a list" where
  "collect [] = Inr []"
| "collect (r # rs) =
     (case r of
        Inl e \<Rightarrow> Inl e
      | Inr v \<Rightarrow> (case collect rs of Inl e \<Rightarrow> Inl e | Inr vs \<Rightarrow> Inr (v # vs)))"

text \<open>
  The order of the failures is the order of evaluation in the source:
  \<^verbatim>\<open>original_times[-1]\<close> raises \<^verbatim>\<open>IndexError\<close> on an empty track, then
  \<^verbatim>\<open>1 / target_fps\<close> raises \<^verbatim>\<open>ZeroDivisionError\<close>, then \<^verbatim>\<open>np.arange\<close> refuses
  the non-finite stop that a zero source rate produces.
\<close>

definition resample_positions :: "pose list \<Rightarrow> real \<Rightarrow> real \<Rightarrow> error + pose list" where
  "resample_positions positions source_fps target_fps =
     (if source_fps = target_fps then Inr positions
      else if positions = [] then Inl IndexError
      else if target_fps = 0 then Inl ZeroDivisionError
      else if source_fps = 0 then Inl ValueError
      else
        let pos_array = positions;
            original_times = frame_times (length positions) source_fps;
            target_times = np_arange (last original_times) (1 / target_fps)
        in case collect
             (map (\<lambda>i. np_interp target_times original_times (column pos_array i)) [0..<3] @
              map (\<lambda>i. interpolate_angles original_times (column pos_array i) target_times) [3..<6])
           of Inl e \<Rightarrow> Inl e
            | Inr cols \<Rightarrow> Inr (rows (length target_times) cols))"

subsection \<open>The parsed demo\<close>

text \<open>
  What \<^verbatim>\<open>analyze_demo\<close> reads of the structure \<^verbatim>\<open>parse_demo\<close> returns: the
  directories with their name, frame count, recorded time and frame records
  (\<^verbatim>\<open>macros\<close>). An attribute a frame record may lack (\<^verbatim>\<open>client_data\<close>, its
  \<^verbatim>\<open>position\<close>, its \<^verbatim>\<open>rotation\<close>) is an option. The frame count is a Python
  \<^verbatim>\<open>int\<close>.
\<close>

record vector =
  pos_x :: real
  pos_y :: real
  pos_z :: real

record view_angles =
  roll :: real
  pitch :: real
  yaw :: real

record client_data =
  position :: "vector option"
  rotation :: "view_angles option"

record macro =
  client_data :: "client_data option"

record directory =
  name :: string
  frames :: int
  time :: real
  macros :: "macro list"

record demo =
  directories :: "directory list"

subsection \<open>analyze\_demo: extraction\<close>

text \<open>
  The body of the \<^verbatim>\<open>try\<close> block for one frame record. A record without
  \<^verbatim>\<open>client_data\<close> appends nothing; a missing \<^verbatim>\<open>position\<close> or \<^verbatim>\<open>rotation\<close>
  raises inside the block, the bare \<^verbatim>\<open>except\<close> catches it and the loop continues.
\<close>

definition try_append :: "pose list \<Rightarrow> macro \<Rightarrow> pose list" where
  "try_append positions macro =
     (case client_data macro of
        None \<Rightarrow> positions
      | Some cd \<Rightarrow>
          (case position cd of
             None \<Rightarrow> positions
           | Some pos \<Rightarrow>
               (case rotation cd of
                  None \<Rightarrow> positions
                | Some rot \<Rightarrow>
                    positions @
                    [(- pos_y pos, pos_z pos + 16, - pos_x pos, - roll rot, - pitch rot, yaw rot)])))"

text \<open>
  The loop over the directories, carrying \<^verbatim>\<open>positions\<close> and
  \<^verbatim>\<open>source_frame_time\<close>; the inner loop over the frame records is the fold of
  \<open>try_append\<close>.
\<close>

fun extract_dirs :: "directory list \<Rightarrow> pose list \<times> real \<Rightarrow> pose list \<times> real" where
  "extract_dirs [] st = st"
| "extract_dirs (d # ds) (positions, source_frame_time) =
     (if name d = ''Playback'' then
        extract_dirs ds
          (foldl try_append positions (macros d),
           if frames d > 0 then time d / real_of_int (frames d) else source_frame_time)
      else extract_dirs ds (positions, source_frame_time))"

definition extract_track :: "demo \<Rightarrow> pose list \<times> real" where
  "extract_track dm = extract_dirs (directories dm) ([], 1 / 60)"

subsection \<open>analyze\_demo: writing the file\<close>

text \<open>
  \<^verbatim>\<open>str\<close> of a natural number (the frame count) and the format \<^verbatim>\<open>.6f\<close>: the
  sign, then the absolute value rounded to a whole number of millionths (a tie goes
  to the even neighbour), written with all its integer digits and six fraction digits.
\<close>

definition digit_char :: "nat \<Rightarrow> char" where
  "digit_char d = ''0123456789'' ! d"

fun str_nat :: "nat \<Rightarrow> string" where
  "str_nat n = (if n < 10 then [digit_char n] else str_nat (n div 10) @ [digit_char (n mod 10)])"

declare str_nat.simps [simp del]

definition round_half_even :: "real \<Rightarrow> int" where
  "round_half_even v =
     (let fl = \<lfloor>v\<rfloor>; r = v - of_int fl in
      if r < 1 / 2 then fl
      else if 1 / 2 < r then fl + 1
      else if even fl then fl else fl + 1)"

definition zero_pad :: "nat \<Rightarrow> string \<Rightarrow> string" where
  "zero_pad w s = replicate (w - length s) (CHR ''0'') @ s"

definition fmt6 :: "real \<Rightarrow> string" where
  "fmt6 v =
     (let n = nat (round_half_even (\<bar>v\<bar> * 1000000)) in
      (if v < 0 then ''-'' else '''') @ str_nat (n div 1000000) @ ''.'' @
      zero_pad 6 (str_nat (n mod 1000000)))"

text \<open>
  The file is the text written so far; every \<^verbatim>\<open>out.write\<close> of the source writes
  one line and its newline.
\<close>

definition write_line :: "string \<Rightarrow> string \<Rightarrow> string" where
  "write_line out s = out @ s @ [CHR 0x0A]"

definition bvh_header :: "string list" where
  "bvh_header =
     [''HIERARCHY'',
      ''ROOT MdtCam'',
      ''{'',
      CHR 0x09 # ''OFFSET 0.00 0.00 0.00'',
      CHR 0x09 # ''CHANNELS 6 Xposition Yposition Zposition Zrotation Xrotation Yrotation'',
      CHR 0x09 # ''End Site'',
      CHR 0x09 # ''{'',
      CHR 0x09 # CHR 0x09 # ''OFFSET 0.00 0.00 -1.00'',
      CHR 0x09 # ''}'',
      ''}'']"

definition pose_text :: "pose \<Rightarrow> string" where
  "pose_text pos =
     fmt6 (chan pos 0) @ '' '' @ fmt6 (chan pos 1) @ '' '' @ fmt6 (chan pos 2) @ '' '' @
     fmt6 (chan pos 3) @ '' '' @ fmt6 (chan pos 4) @ '' '' @ fmt6 (chan pos 5)"

definition write_bvh :: "pose list \<Rightarrow> real \<Rightarrow> string" where
  "write_bvh positions target_frame_time =
     foldl (\<lambda>out pos. write_line out (pose_text pos))
       (foldl write_line []
          (bvh_header @
           [''MOTION'',
            ''Frames: '' @ str_nat (length positions),
            ''Frame Time: '' @ fmt6 target_frame_time]))
       positions"

definition serialize :: "pose list \<Rightarrow> int \<Rightarrow> error + string" where
  "serialize positions target_fps =
     (if target_fps = 0 then Inl ZeroDivisionError
      else Inr (write_bvh positions (1 / real_of_int target_fps)))"

subsection \<open>analyze\_demo as a whole\<close>

text \<open>
  \<^verbatim>\<open>source_fps = 1.0 / source_frame_time\<close> raises for a zero frame time. The
  track is resampled when the two rates differ, then written; the result is the text
  of the output file.
\<close>

definition source_fps_of :: "demo \<Rightarrow> error + real" where
  "source_fps_of dm =
     (let source_frame_time = snd (extract_track dm) in
      if source_frame_time = 0 then Inl ZeroDivisionError else Inr (1 / source_frame_time))"

definition analyze_demo :: "demo \<Rightarrow> int \<Rightarrow> error + string" where
  "analyze_demo dm target_fps =
     (let positions = fst (extract_track dm) in
      case source_fps_of dm of
        Inl e \<Rightarrow> Inl e
      | Inr source_fps \<Rightarrow>
          (case (if source_fps \<noteq> real_of_int target_fps
                 then resample_positions positions source_fps (real_of_int target_fps)
                 else Inr positions) of
             Inl e \<Rightarrow> Inl e
           | Inr resampled \<Rightarrow> serialize resampled target_fps))"

subsection \<open>The two functions on a store\<close>

text \<open>
  For the question whether a call changes its arguments, the objects live in a store:
  the data buffers of numpy arrays and the Python lists of pose tuples, by address. An
  array object is a strided view of a buffer (\<^verbatim>\<open>pos_array[:, i]\<close> is the view with
  offset \<open>i\<close> and stride 6 of the row-major buffer of \<^verbatim>\<open>pos_array\<close>), so two array
  objects may share a buffer. New objects are allocated at \<open>next_addr\<close>.
\<close>

type_synonym addr = nat

record store =
  buffers :: "addr \<Rightarrow> real list option"
  pylists :: "addr \<Rightarrow> pose list option"
  next_addr :: addr

record ndarray =
  nd_base :: addr
  nd_offset :: nat
  nd_stride :: nat
  nd_len :: nat

text \<open>The values an array object shows; a dangling address shows nothing.\<close>

definition elements :: "store \<Rightarrow> ndarray \<Rightarrow> real list" where
  "elements s a =
     (case buffers s (nd_base a) of
        None \<Rightarrow> []
      | Some buf \<Rightarrow> map (\<lambda>k. buf ! (nd_offset a + k * nd_stride a)) [0..<nd_len a])"

text \<open>
  A new array with a buffer of its own, and \<^verbatim>\<open>np.array(a)\<close>, which copies \<open>a\<close> into
  one.
\<close>

definition alloc :: "store \<Rightarrow> real list \<Rightarrow> store \<times> ndarray" where
  "alloc s xs =
     (s\<lparr>buffers := (buffers s)(next_addr s \<mapsto> xs), next_addr := Suc (next_addr s)\<rparr>,
      \<lparr>nd_base = next_addr s, nd_offset = 0, nd_stride = 1, nd_len = length xs\<rparr>)"

definition np_array :: "store \<Rightarrow> ndarray \<Rightarrow> store \<times> ndarray" where
  "np_array s a = alloc s (elements s a)"

text \<open>
  \<^verbatim>\<open>a[i:] -= 360\<close> and \<^verbatim>\<open>a[i:] += 360\<close> write into the buffer of \<open>a\<close>.
  \<open>inplace\<close> is used on the array \<^verbatim>\<open>np.array\<close> returned, which shows its whole
  buffer.
\<close>

definition inplace :: "store \<Rightarrow> ndarray \<Rightarrow> (real list \<Rightarrow> real list) \<Rightarrow> store" where
  "inplace s a f = s\<lparr>buffers := (buffers s)(nd_base a \<mapsto> f (elements s a))\<rparr>"

definition unwrap_step_st :: "ndarray \<Rightarrow> store \<Rightarrow> nat \<Rightarrow> store" where
  "unwrap_step_st angles s i =
     (let diff = elements s angles ! i - elements s angles ! (i - 1) in
      if \<bar>diff\<bar> > 180 then
        (if diff > 0 then inplace s angles (slice_sub i 360)
         else inplace s angles (slice_add i 360))
      else s)"

definition interpolate_angles_st ::
  "store \<Rightarrow> ndarray \<Rightarrow> ndarray \<Rightarrow> ndarray \<Rightarrow> (error + real list) \<times> store" where
  "interpolate_angles_st s src_times angles target_times =
     (let (s1, angles1) = np_array s angles;
          s2 = foldl (unwrap_step_st angles1) s1 [1..<nd_len angles1]
      in (case np_interp (elements s2 target_times) (elements s2 src_times) (elements s2 angles1) of
            Inl e \<Rightarrow> Inl e
          | Inr ys \<Rightarrow> Inr (map (\<lambda>y. py_mod y 360) ys),
          s2))"

text \<open>
  \<^verbatim>\<open>resample_positions\<close> receives the address of the list \<^verbatim>\<open>positions\<close>. The fast
  path returns that address; the other path copies the list into the new array
  \<^verbatim>\<open>pos_array\<close>, interpolates its columns and returns the address of a new list.
  The array \<^verbatim>\<open>resampled\<close> that receives the columns is new and is read back at
  once by \<^verbatim>\<open>tolist\<close>; the rows are built from the columns directly, and the arrays
  that \<^verbatim>\<open>np.interp\<close> and \<^verbatim>\<open>%\<close> return are values.
\<close>

definition pose_row :: "pose \<Rightarrow> real list" where
  "pose_row p = map (chan p) [0..<6]"

definition list_at :: "store \<Rightarrow> addr \<Rightarrow> pose list" where
  "list_at s p = (case pylists s p of None \<Rightarrow> [] | Some ps \<Rightarrow> ps)"

definition new_list :: "store \<Rightarrow> pose list \<Rightarrow> store \<times> addr" where
  "new_list s ps =
     (s\<lparr>pylists := (pylists s)(next_addr s \<mapsto> ps), next_addr := Suc (next_addr s)\<rparr>,
      next_addr s)"

fun rotation_columns_st ::
  "store \<Rightarrow> ndarray \<Rightarrow> (nat \<Rightarrow> ndarray) \<Rightarrow> ndarray \<Rightarrow> nat list \<Rightarrow>
     (error + real list list) \<times> store" where
  "rotation_columns_st s original_times col target_times [] = (Inr [], s)"
| "rotation_columns_st s original_times col target_times (i # is) =
     (case interpolate_angles_st s original_times (col i) target_times of
        (Inl e, s') \<Rightarrow> (Inl e, s')
      | (Inr c, s') \<Rightarrow>
          (case rotation_columns_st s' original_times col target_times is of
             (Inl e, s'') \<Rightarrow> (Inl e, s'')
           | (Inr cs, s'') \<Rightarrow> (Inr (c # cs), s'')))"

definition interpolate_columns_st ::
  "store \<Rightarrow> ndarray \<Rightarrow> (nat \<Rightarrow> ndarray) \<Rightarrow> ndarray \<Rightarrow> (error + addr) \<times> store" where
  "interpolate_columns_st s original_times col target_times =
     (case collect
        (map (\<lambda>i. np_interp (elements s target_times) (elements s original_times)
                    (elements s (col i))) [0..<3])
      of Inl e \<Rightarrow> (Inl e, s)
       | Inr pcols \<Rightarrow>
           (case rotation_columns_st s original_times col target_times [3..<6] of
              (Inl e, s') \<Rightarrow> (Inl e, s')
            | (Inr rcols, s') \<Rightarrow>
                (let (s'', out) = new_list s' (rows (nd_len target_times) (pcols @ rcols))
                 in (Inr out, s''))))"

definition resample_positions_st ::
  "store \<Rightarrow> addr \<Rightarrow> real \<Rightarrow> real \<Rightarrow> (error + addr) \<times> store" where
  "resample_positions_st s positions source_fps target_fps =
     (if source_fps = target_fps then (Inr positions, s)
      else
        let ps = list_at s positions;
            (s1, pos_array) = alloc s (concat (map pose_row ps));
            col = (\<lambda>i. \<lparr>nd_base = nd_base pos_array, nd_offset = i, nd_stride = 6,
                         nd_len = length ps\<rparr>);
            (s2, original_times) = alloc s1 (frame_times (length ps) source_fps)
        in if ps = [] then (Inl IndexError, s2)
           else if target_fps = 0 then (Inl ZeroDivisionError, s2)
           else if source_fps = 0 then (Inl ValueError, s2)
           else
             let (s3, target_times) =
                   alloc s2 (np_arange (last (elements s2 original_times)) (1 / target_fps))
             in interpolate_columns_st s3 original_times col target_times)"

subsection \<open>Notions used in the statements\<close>

text \<open>
  The correction the unwrap step owes to one jump between consecutive raw samples:
  \<open>- 360\<close> for a jump above 180 degrees, \<open>+ 360\<close> for one below \<open>- 180\<close>, nothing
  otherwise.
\<close>

definition correction :: "real \<Rightarrow> real" where
  "correction diff = (if \<bar>diff\<bar> > 180 then (if diff > 0 then - 360 else 360) else 0)"

text \<open>
  The value of position channel \<open>i\<close> and of rotation channel \<open>i\<close> that the resampler
  computes for target time \<open>t\<close>: the two calls in the loops of \<open>resample_positions\<close>,
  at one target time.
\<close>

definition position_at :: "pose list \<Rightarrow> real \<Rightarrow> nat \<Rightarrow> real \<Rightarrow> real" where
  "position_at ps fs i t = interp_point (frame_times (length ps) fs) (column ps i) t"

definition rotation_at :: "pose list \<Rightarrow> real \<Rightarrow> nat \<Rightarrow> real \<Rightarrow> real" where
  "rotation_at ps fs i t =
     py_mod (interp_point (frame_times (length ps) fs) (unwrap (column ps i)) t) 360"


text \<open>
  A frame record exposes position and rotation data when all three attribute reads of
  the \<^verbatim>\<open>try\<close> block succeed; \<open>remapped\<close> is the pose appended for such a record.
\<close>

definition exposes :: "macro \<Rightarrow> bool" where
  "exposes m =
     (case client_data m of
        None \<Rightarrow> False
      | Some cd \<Rightarrow> position cd \<noteq> None \<and> rotation cd \<noteq> None)"

definition remapped :: "macro \<Rightarrow> pose" where
  "remapped m =
     (let cd = the (client_data m); pos = the (position cd); rot = the (rotation cd)
      in (- pos_y pos, pos_z pos + 16, - pos_x pos, - roll rot, - pitch rot, yaw rot))"

text \<open>The lines of a text, each ended by a newline.\<close>

fun lines_from :: "string \<Rightarrow> string \<Rightarrow> string list" where
  "lines_from cur [] = (if cur = [] then [] else [cur])"
| "lines_from cur (c # cs) =
     (if c = CHR 0x0A then cur # lines_from [] cs else lines_from (cur @ [c]) cs)"

definition text_lines :: "string \<Rightarrow> string list" where
  "text_lines t = lines_from [] t"

text \<open>Decimal digits, the characters of a formatted number, and reading digits back.\<close>

definition digit_chars :: "char set" where
  "digit_chars = set ''0123456789''"

definition number_chars :: "char set" where
  "number_chars = insert (CHR ''-'') (insert (CHR ''.'') digit_chars)"

definition digit_value :: "char \<Rightarrow> nat" where
  "digit_value c = of_char c - 48"

definition read_nat :: "string \<Rightarrow> nat" where
  "read_nat s = foldl (\<lambda>a c. 10 * a + digit_value c) 0 s"

text \<open>
  Sample data: a playback directory without frames, and ten frame records, three of
  them without rotation data.
\<close>

definition complete_record :: macro where
  "complete_record =
     \<lparr>client_data = Some \<lparr>position = Some \<lparr>pos_x = 1, pos_y = 2, pos_z = 3\<rparr>,
                           rotation = Some \<lparr>roll = 10, pitch = 20, yaw = 30\<rparr>\<rparr>\<rparr>"

definition record_without_rotation :: macro where
  "record_without_rotation =
     \<lparr>client_data = Some \<lparr>position = Some \<lparr>pos_x = 1, pos_y = 2, pos_z = 3\<rparr>,
                           rotation = None\<rparr>\<rparr>"

definition empty_playback :: directory where
  "empty_playback = \<lparr>name = ''Playback'', frames = 0, time = 0, macros = []\<rparr>"

definition ten_records :: directory where
  "ten_records =
     \<lparr>name = ''Playback'', frames = 10, time = 1 / 5,
      macros = [complete_record, record_without_rotation, complete_record, complete_record,
                record_without_rotation, complete_record, complete_record, complete_record,
                record_without_rotation, complete_record]\<rparr>"

text \<open>
  \<open>owns s a xs\<close>: the array \<open>a\<close> shows the whole buffer \<open>xs\<close>.
  \<open>preserves s s'\<close>: every buffer and every list of \<open>s\<close> is in \<open>s'\<close> with the same
  contents. \<open>agrees s r v\<close>: the store-level result \<open>r\<close> denotes the value \<open>v\<close>.
\<close>

definition owns :: "store \<Rightarrow> ndarray \<Rightarrow> real list \<Rightarrow> bool" where
  "owns s a xs \<longleftrightarrow>
     buffers s (nd_base a) = Some xs \<and> nd_offset a = 0 \<and> nd_stride a = 1 \<and> nd_len a = length xs"

definition preserves :: "store \<Rightarrow> store \<Rightarrow> bool" where
  "preserves s s' \<longleftrightarrow>
     next_addr s \<le> next_addr s' \<and>
     (\<forall>b < next_addr s. buffers s' b = buffers s b \<and> pylists s' b = pylists s b)"

definition agrees :: "store \<Rightarrow> error + addr \<Rightarrow> error + pose list \<Rightarrow> bool" where
  "agrees s r v \<longleftrightarrow>
     (case r of Inl e \<Rightarrow> v = Inl e | Inr out \<Rightarrow> v = Inr (list_at s out))"

text \<open>Sample data: a store with three arrays and one list of two poses.\<close>

definition sample_store :: store where
  "sample_store =
     \<lparr>buffers = (\<lambda>a. None)(0 \<mapsto> [0, 1], 1 \<mapsto> [350, 10], 2 \<mapsto> [1 / 2]),
      pylists = (\<lambda>a. None)(3 \<mapsto> [(1, 2, 3, 350, 0, - 10), (2, 3, 4, 10, 0, - 20)]),
      next_addr = 4\<rparr>"

definition sample_times :: ndarray where
  "sample_times = \<lparr>nd_base = 0, nd_offset = 0, nd_stride = 1, nd_len = 2\<rparr>"

definition sample_angles :: ndarray where
  "sample_angles = \<lparr>nd_base = 1, nd_offset = 0, nd_stride = 1, nd_len = 2\<rparr>"

definition sample_targets :: ndarray where
  "sample_targets = \<lparr>nd_base = 2, nd_offset = 0, nd_stride = 1, nd_len = 1\<rparr>"

section \<open>Properties\<close>

subsection \<open>The unwrap loop\<close>

lemma unwrap_step_nth:
  assumes "k < length a"
  shows "unwrap_step a i ! k = a ! k + (if i \<le> k then correction (a ! i - a ! (i - 1)) else 0)"
  using assms
  by (auto simp: unwrap_step_def Let_def correction_def slice_sub_def slice_add_def nth_append)

lemma length_unwrap_step: "length (unwrap_step a i) = length a"
  by (auto simp: unwrap_step_def Let_def slice_sub_def slice_add_def)

lemma unwrap_prefix:
  "m \<le> length xs \<Longrightarrow> 1 \<le> m \<Longrightarrow>
   length (foldl unwrap_step xs [1..<m]) = length xs \<and>
   (\<forall>k < length xs. foldl unwrap_step xs [1..<m] ! k =
      xs ! k + (\<Sum>j = 1..min k (m - 1). correction (xs ! j - xs ! (j - 1))))"
proof (induction m)
  case 0
  then show ?case by simp
next
  case (Suc m)
  show ?case
  proof (cases "m = 0")
    case True
    then show ?thesis by simp
  next
    case False
    then have m1: "1 \<le> m" and ml: "m < length xs" using Suc.prems by auto
    let ?a = "foldl unwrap_step xs [1..<m]"
    from Suc.IH m1 ml have len: "length ?a = length xs"
      and nth: "\<And>k. k < length xs \<Longrightarrow> ?a ! k = xs ! k + (\<Sum>j = 1..min k (m - 1). correction (xs ! j - xs ! (j - 1)))"
      by auto
    have step: "foldl unwrap_step xs [1..<Suc m] = unwrap_step ?a m"
      using m1 by simp
    have diff: "?a ! m - ?a ! (m - 1) = xs ! m - xs ! (m - 1)"
      using nth[of m] nth[of "m - 1"] ml m1 by (simp add: min_def)
    show ?thesis
    proof (intro conjI allI impI)
      show "length (foldl unwrap_step xs [1..<Suc m]) = length xs"
        by (simp only: step length_unwrap_step len)
    next
      fix k assume k: "k < length xs"
      have "foldl unwrap_step xs [1..<Suc m] ! k =
            ?a ! k + (if m \<le> k then correction (xs ! m - xs ! (m - 1)) else 0)"
        using k len by (simp only: step unwrap_step_nth diff)
      also have "\<dots> = xs ! k + (\<Sum>j = 1..min k (Suc m - 1). correction (xs ! j - xs ! (j - 1)))"
      proof (cases "m \<le> k")
        case True
        then have "min k (Suc m - 1) = m" "min k (m - 1) = m - 1" by auto
        moreover have "{1..m} = insert m {1..m - 1}" using m1 by auto
        ultimately show ?thesis using nth[OF k] True m1 by simp
      next
        case False
        then have "min k (Suc m - 1) = k" "min k (m - 1) = k" by auto
        then show ?thesis using nth[OF k] False by simp
      qed
      finally show "foldl unwrap_step xs [1..<Suc m] ! k =
         xs ! k + (\<Sum>j = 1..min k (Suc m - 1). correction (xs ! j - xs ! (j - 1)))" .
    qed
  qed
qed

lemma length_unwrap: "length (unwrap xs) = length xs"
proof (cases xs)
  case Nil then show ?thesis by (simp add: unwrap_def)
next
  case (Cons a as)
  then show ?thesis using unwrap_prefix[of "length xs" xs] by (simp add: unwrap_def)
qed

lemma unwrap_nth:
  assumes "k < length xs"
  shows "unwrap xs ! k = xs ! k + (\<Sum>j = 1..k. correction (xs ! j - xs ! (j - 1)))"
proof -
  have "1 \<le> length xs" using assms by simp
  then show ?thesis using unwrap_prefix[of "length xs" xs] assms by (simp add: unwrap_def min_def)
qed

subsection \<open>The resampler on a track it interpolates\<close>

lemma np_interp_ok:
  "xp \<noteq> [] \<Longrightarrow> length xp = length fp \<Longrightarrow> np_interp x xp fp = Inr (map (interp_point xp fp) x)"
  by (simp add: np_interp_def)

lemma length_frame_times: "length (frame_times n fs) = n"
  by (simp add: frame_times_def)

lemma frame_times_Nil: "frame_times n fs = [] \<longleftrightarrow> n = 0"
  by (simp add: frame_times_def)

lemma last_frame_times: "0 < n \<Longrightarrow> last (frame_times n fs) = real (n - 1) / fs"
  by (simp add: frame_times_def last_map)

lemma length_column: "length (column ps i) = length ps"
  by (simp add: column_def)

lemma upt3: "[0..<3] = [0, 1, 2]" "[3..<6] = [3, 4, 5]"
  by (simp_all add: upt_rec)

lemma rows_map:
  "rows (length ts) [map f0 ts, map f1 ts, map f2 ts, map f3 ts, map f4 ts, map f5 ts] =
   map (\<lambda>t. (f0 t, f1 t, f2 t, f3 t, f4 t, f5 t)) ts"
  by (rule nth_equalityI) (simp_all add: rows_def)

lemma resample_positions_eq:
  assumes "fs \<noteq> f" "ps \<noteq> []" "fs \<noteq> 0" "f \<noteq> 0"
  shows "resample_positions ps fs f =
    Inr (map (\<lambda>t. (position_at ps fs 0 t, position_at ps fs 1 t, position_at ps fs 2 t,
                    rotation_at ps fs 3 t, rotation_at ps fs 4 t, rotation_at ps fs 5 t))
          (np_arange (real (length ps - 1) / fs) (1 / f)))"
proof -
  let ?ot = "frame_times (length ps) fs"
  let ?tt = "np_arange (last ?ot) (1 / f)"
  have ne: "?ot \<noteq> []" using assms(2) by (simp add: frame_times_Nil)
  have last: "last ?ot = real (length ps - 1) / fs"
    using assms(2) by (simp add: last_frame_times)
  have pos: "\<And>i tt. np_interp tt ?ot (column ps i) = Inr (map (position_at ps fs i) tt)"
    using ne by (simp add: np_interp_ok length_frame_times length_column position_at_def)
  have rot: "\<And>i tt. interpolate_angles ?ot (column ps i) tt = Inr (map (rotation_at ps fs i) tt)"
    using ne
    by (simp add: interpolate_angles_def np_interp_ok length_frame_times length_column
        length_unwrap rotation_at_def)
  show ?thesis
    using assms
    by (simp add: resample_positions_def Let_def upt3 pos rot rows_map last del: upt_Suc)
qed



lemma interp_mid:
  assumes "0 < t"
  shows "interpolate_angles [0, t] [350, 10] [t / 2] = Inr [0]"
proof -
  have u: "unwrap [350, 10] = [350, 370]"
    by (simp add: unwrap_def unwrap_step_def slice_add_def slice_sub_def)
  have "interp_point [0, t] [350, 370] (t / 2) = 360"
    using assms by (simp add: interp_point_def)
  then show ?thesis
    using assms by (simp add: interpolate_angles_def np_interp_def u py_mod_def)
qed

lemma np_arange_nth: "k < length (np_arange stop step) \<Longrightarrow> np_arange stop step ! k = real k * step"
  by (simp add: np_arange_def)




lemma frame_times_unfold:
  "2 \<le> n \<Longrightarrow> \<exists>ts. frame_times n fs = 0 # (1 / fs) # ts"
proof -
  assume "2 \<le> n"
  then obtain m where n: "n = Suc (Suc m)" by (metis add_2_eq_Suc le_Suc_ex)
  have "[0..<Suc (Suc m)] = 0 # 1 # [2..<Suc (Suc m)]"
    by (simp add: upt_rec[of 0] upt_rec[of "Suc 0"] numeral_2_eq_2)
  then show ?thesis by (simp add: frame_times_def n del: upt_Suc)
qed

lemma interp_point_start:
  assumes "2 \<le> n" "0 < fs" "length fp = n"
  shows "interp_point (frame_times n fs) fp 0 = hd fp"
proof -
  from frame_times_unfold[OF assms(1)] obtain ts where ts: "frame_times n fs = 0 # (1 / fs) # ts"
    by blast
  from assms(1,3) obtain y0 y1 ys where fp: "fp = y0 # y1 # ys"
    by (cases fp; cases "tl fp") auto
  have "0 \<le> real (n - 1) / fs"
    using assms(2) by (intro divide_nonneg_nonneg) simp_all
  moreover have "last (frame_times n fs) = real (n - 1) / fs"
    using assms(1) by (intro last_frame_times) simp
  ultimately have "\<not> last (frame_times n fs) < 0" by linarith
  then have "\<not> last (0 # (1 / fs) # ts) < 0" unfolding ts .
  then show ?thesis
    using assms(2) unfolding interp_point_def ts fp by simp
qed

lemma hd_unwrap: "xs \<noteq> [] \<Longrightarrow> hd (unwrap xs) = hd xs"
proof -
  assume ne: "xs \<noteq> []"
  then have "unwrap xs \<noteq> []" using length_unwrap[of xs] by (metis length_0_conv)
  then have "hd (unwrap xs) = unwrap xs ! 0" by (simp add: hd_conv_nth)
  also have "\<dots> = xs ! 0" using unwrap_nth[of 0 xs] ne by simp
  finally show ?thesis using ne by (simp add: hd_conv_nth)
qed

lemma hd_column: "ps \<noteq> [] \<Longrightarrow> hd (column ps i) = chan (hd ps) i"
  by (simp add: column_def hd_map)

lemma np_arange_start:
  assumes "0 < stop" "0 < step"
  shows "\<exists>ts. np_arange stop step = 0 # ts"
proof -
  have "0 < stop / step" using assms by simp
  then have "0 < \<lceil>stop / step\<rceil>" by linarith
  then obtain m where "nat \<lceil>stop / step\<rceil> = Suc m"
    by (metis Suc_pred' zero_less_nat_eq)
  then show ?thesis by (simp add: np_arange_def upt_rec[of 0] del: upt_Suc)
qed

subsection \<open>Extraction\<close>

lemma try_append_eq:
  "try_append positions m = (if exposes m then positions @ [remapped m] else positions)"
  by (auto simp: try_append_def exposes_def remapped_def split: option.splits)

lemma foldl_try_append:
  "foldl try_append positions ms = positions @ map remapped (filter exposes ms)"
  by (induction ms arbitrary: positions) (simp_all add: try_append_eq)

lemma extract_dirs_skip:
  "\<forall>d \<in> set ds. name d \<noteq> ''Playback'' \<Longrightarrow> extract_dirs ds st = st"
  by (induction ds st rule: extract_dirs.induct) simp_all

lemma extract_dirs_append:
  "extract_dirs (ds @ es) st = extract_dirs es (extract_dirs ds st)"
  by (induction ds st rule: extract_dirs.induct) simp_all

lemma extract_single:
  assumes "name d = ''Playback''"
    and "\<forall>e \<in> set before. name e \<noteq> ''Playback''" "\<forall>e \<in> set after. name e \<noteq> ''Playback''"
  shows "extract_track \<lparr>directories = before @ d # after\<rparr> =
     (map remapped (filter exposes (macros d)),
      if frames d > 0 then time d / real_of_int (frames d) else 1 / 60)"
  using assms
  by (simp add: extract_track_def extract_dirs_append extract_dirs_skip foldl_try_append)

lemma length_filter_compl:
  "length (filter P xs) = length xs - length (filter (\<lambda>x. \<not> P x) xs)"
  using sum_length_filter_compl[of P xs] by simp

subsection \<open>Formatting and the written text\<close>

lemma str_nat_small: "n < 10 \<Longrightarrow> str_nat n = [digit_char n]"
  by (simp add: str_nat.simps)

lemma str_nat_big: "10 \<le> n \<Longrightarrow> str_nat n = str_nat (n div 10) @ [digit_char (n mod 10)]"
  by (subst str_nat.simps) simp

lemma replicate_num: "replicate (numeral k) c = c # replicate (pred_numeral k) c"
  by (simp add: numeral_eq_Suc)

lemmas fmt_eval = fmt6_def round_half_even_def zero_pad_def str_nat_small str_nat_big
  digit_char_def Let_def replicate_num

lemma lines_from_line:
  "CHR 0x0A \<notin> set l \<Longrightarrow> lines_from cur (l @ CHR 0x0A # rest) = (cur @ l) # lines_from [] rest"
  by (induction l arbitrary: cur) auto

lemma text_lines_concat:
  "\<forall>l \<in> set ls. CHR 0x0A \<notin> set l \<Longrightarrow>
   text_lines (concat (map (\<lambda>l. l @ [CHR 0x0A]) ls)) = ls"
  unfolding text_lines_def
proof (induction ls)
  case Nil
  then show ?case by simp
next
  case (Cons l ls)
  then show ?case using lines_from_line[of l "[]"] by simp
qed

lemma foldl_write_line:
  "foldl write_line acc ls = acc @ concat (map (\<lambda>l. l @ [CHR 0x0A]) ls)"
  by (induction ls arbitrary: acc) (simp_all add: write_line_def)

lemma foldl_write_pose:
  "foldl (\<lambda>out pos. write_line out (pose_text pos)) acc ps =
   acc @ concat (map (\<lambda>l. l @ [CHR 0x0A]) (map pose_text ps))"
  by (induction ps arbitrary: acc) (simp_all add: write_line_def)

lemma write_bvh_concat:
  "write_bvh positions tft =
   concat (map (\<lambda>l. l @ [CHR 0x0A])
     (bvh_header @
      [''MOTION'', ''Frames: '' @ str_nat (length positions), ''Frame Time: '' @ fmt6 tft] @
      map pose_text positions))"
  unfolding write_bvh_def foldl_write_pose foldl_write_line by simp

lemma digit_char_digit: "d < 10 \<Longrightarrow> digit_char d \<in> digit_chars"
  unfolding digit_char_def digit_chars_def by (rule nth_mem) simp

lemma str_nat_digits: "set (str_nat n) \<subseteq> digit_chars"
proof (induction n rule: str_nat.induct)
  case (1 n)
  show ?case
  proof (cases "n < 10")
    case True
    then show ?thesis using digit_char_digit[of n] by (simp add: str_nat_small)
  next
    case False
    then have "set (str_nat (n div 10)) \<subseteq> digit_chars" using 1 by simp
    moreover have "digit_char (n mod 10) \<in> digit_chars"
      by (rule digit_char_digit) simp
    ultimately show ?thesis using False by (simp add: str_nat_big)
  qed
qed

lemma zero_pad_digits: "set s \<subseteq> digit_chars \<Longrightarrow> set (zero_pad w s) \<subseteq> digit_chars"
proof -
  have "CHR ''0'' \<in> digit_chars" by (simp add: digit_chars_def)
  then show "set s \<subseteq> digit_chars \<Longrightarrow> set (zero_pad w s) \<subseteq> digit_chars"
    by (auto simp: zero_pad_def)
qed

lemma fmt6_chars: "set (fmt6 v) \<subseteq> number_chars"
proof -
  have d: "digit_chars \<subseteq> number_chars" by (auto simp: number_chars_def)
  have m: "CHR ''-'' \<in> number_chars" "CHR ''.'' \<in> number_chars"
    by (simp_all add: number_chars_def)
  have "set (str_nat a) \<subseteq> number_chars" for a
    using str_nat_digits[of a] d by blast
  moreover have "set (zero_pad 6 (str_nat b)) \<subseteq> number_chars" for b
    using zero_pad_digits[OF str_nat_digits, of 6 b] d by blast
  ultimately show ?thesis
    using m by (auto simp: fmt6_def Let_def)
qed

lemma newline_not_number: "CHR 0x0A \<notin> number_chars"
  by (simp add: number_chars_def digit_chars_def)

lemma fmt6_no_newline: "CHR 0x0A \<notin> set (fmt6 v)"
  using fmt6_chars[of v] newline_not_number by blast

lemma str_nat_no_newline: "CHR 0x0A \<notin> set (str_nat n)"
  using str_nat_digits[of n] newline_not_number by (auto simp: number_chars_def)

lemma pose_text_no_newline: "CHR 0x0A \<notin> set (pose_text p)"
  by (simp add: pose_text_def fmt6_no_newline)

lemma header_no_newline: "l \<in> set bvh_header \<Longrightarrow> CHR 0x0A \<notin> set l"
  by (auto simp: bvh_header_def)

lemma text_lines_write_bvh:
  "text_lines (write_bvh positions tft) =
     bvh_header @
      [''MOTION'', ''Frames: '' @ str_nat (length positions), ''Frame Time: '' @ fmt6 tft] @
      map pose_text positions"
  unfolding write_bvh_concat
  by (rule text_lines_concat)
     (auto simp: pose_text_no_newline fmt6_no_newline str_nat_no_newline header_no_newline)

lemma length_bvh_header: "length bvh_header = 10"
  by (simp add: bvh_header_def)

lemma length_str_nat: "0 < k \<Longrightarrow> n < 10 ^ k \<Longrightarrow> length (str_nat n) \<le> k"
proof (induction n arbitrary: k rule: str_nat.induct)
  case (1 n)
  show ?case
  proof (cases "n < 10")
    case True
    then show ?thesis using 1(2) by (simp add: str_nat_small)
  next
    case False
    then obtain j where k: "k = Suc j" and j: "0 < j"
      using 1(2,3) by (cases k; cases "k - 1") auto
    have "n div 10 < 10 ^ j" using 1(3) k by (simp add: less_mult_imp_div_less mult.commute)
    then have "length (str_nat (n div 10)) \<le> j" using 1(1)[OF False j] by simp
    then show ?thesis using False k by (simp add: str_nat_big)
  qed
qed

lemma length_fraction: "length (zero_pad 6 (str_nat (n mod 1000000))) = 6"
proof -
  have "n mod 1000000 < 10 ^ 6" by simp
  then have "length (str_nat (n mod 1000000)) \<le> 6"
    by (intro length_str_nat) simp_all
  then show ?thesis by (simp add: zero_pad_def)
qed

lemma digit_value_digit_char: "d < 10 \<Longrightarrow> digit_value (digit_char d) = d"
proof -
  assume "d < 10"
  then consider "d = 0" | "d = 1" | "d = 2" | "d = 3" | "d = 4" | "d = 5" | "d = 6" | "d = 7"
    | "d = 8" | "d = 9" by atomize_elim arith
  then show ?thesis
    by cases (simp_all add: digit_value_def digit_char_def)
qed

lemma read_nat_str_nat: "read_nat (str_nat n) = n"
proof (induction n rule: str_nat.induct)
  case (1 n)
  show ?case
  proof (cases "n < 10")
    case True
    then show ?thesis by (simp add: str_nat_small read_nat_def digit_value_digit_char)
  next
    case False
    then have "read_nat (str_nat (n div 10)) = n div 10" using 1 by simp
    then show ?thesis
      using False by (simp add: str_nat_big read_nat_def digit_value_digit_char)
  qed
qed

lemma read_nat_append: "read_nat (s @ t) = foldl (\<lambda>a c. 10 * a + digit_value c) (read_nat s) t"
  by (simp add: read_nat_def)

lemma read_nat_zeros: "read_nat (replicate k (CHR ''0'')) = 0"
  by (induction k) (simp_all add: read_nat_def digit_value_def)

lemma read_nat_zero_pad: "read_nat (zero_pad w s) = read_nat s"
  by (simp add: zero_pad_def read_nat_append read_nat_zeros) (simp add: read_nat_def)

lemma round_half_even_near: "\<bar>real_of_int (round_half_even x) - x\<bar> \<le> 1 / 2"
  unfolding round_half_even_def Let_def by (auto simp: abs_if) linarith+

lemma round_half_even_nonneg: "0 \<le> x \<Longrightarrow> 0 \<le> round_half_even x"
  unfolding round_half_even_def Let_def by auto

lemma fmt6_shape:
  "\<exists>whole frac. fmt6 v = (if v < 0 then ''-'' else []) @ whole @ ''.'' @ frac
      \<and> length frac = 6 \<and> set whole \<subseteq> digit_chars \<and> set frac \<subseteq> digit_chars
      \<and> real (read_nat whole * 1000000 + read_nat frac) = real_of_int (round_half_even (\<bar>v\<bar> * 1000000))"
proof -
  define n where "n = nat (round_half_even (\<bar>v\<bar> * 1000000))"
  have n: "real n = real_of_int (round_half_even (\<bar>v\<bar> * 1000000))"
    using round_half_even_nonneg[of "\<bar>v\<bar> * 1000000"] by (simp add: n_def)
  have "fmt6 v = (if v < 0 then ''-'' else []) @ str_nat (n div 1000000) @ ''.'' @
      zero_pad 6 (str_nat (n mod 1000000))"
    by (simp add: fmt6_def Let_def n_def)
  moreover have "length (zero_pad 6 (str_nat (n mod 1000000))) = 6"
    by (rule length_fraction)
  moreover have "set (str_nat (n div 1000000)) \<subseteq> digit_chars" by (rule str_nat_digits)
  moreover have "set (zero_pad 6 (str_nat (n mod 1000000))) \<subseteq> digit_chars"
    by (rule zero_pad_digits) (rule str_nat_digits)
  moreover have "read_nat (str_nat (n div 1000000)) * 1000000 +
      read_nat (zero_pad 6 (str_nat (n mod 1000000))) = n"
    by (simp add: read_nat_zero_pad read_nat_str_nat)
  ultimately show ?thesis using n by metis
qed

lemma fmt6_samples:
  "fmt6 1 = ''1.000000''" "fmt6 (5 / 2) = ''2.500000''" "fmt6 (- 3) = ''-3.000000''"
  "fmt6 350 = ''350.000000''" "fmt6 0 = ''0.000000''" "fmt6 (1 / 128) = ''0.007812''"
  "fmt6 (1 / 30) = ''0.033333''"
  by (simp_all add: fmt_eval)

subsection \<open>The store\<close>

lemma elements_owns: "owns s a xs \<Longrightarrow> elements s a = xs"
  by (simp add: owns_def elements_def map_nth)

lemma owns_alloc: "alloc s xs = (s', a) \<Longrightarrow> owns s' a xs"
  by (auto simp: alloc_def owns_def)

lemma unwrap_step_st_owns:
  assumes "owns s a xs"
  shows "unwrap_step_st a s i = s\<lparr>buffers := (buffers s)(nd_base a \<mapsto> unwrap_step xs i)\<rparr>"
proof -
  have "s\<lparr>buffers := (buffers s)(nd_base a \<mapsto> xs)\<rparr> = s"
    using assms by (simp add: owns_def fun_upd_idem)
  then show ?thesis
    using elements_owns[OF assms]
    by (simp add: unwrap_step_st_def unwrap_step_def inplace_def Let_def)
qed

lemma owns_update: "owns s a xs \<Longrightarrow> length ys = length xs \<Longrightarrow>
    owns (s\<lparr>buffers := (buffers s)(nd_base a \<mapsto> ys)\<rparr>) a ys"
  by (simp add: owns_def)

lemma unwrap_loop_st:
  "owns s a xs \<Longrightarrow>
   foldl (unwrap_step_st a) s js = s\<lparr>buffers := (buffers s)(nd_base a \<mapsto> foldl unwrap_step xs js)\<rparr>"
proof (induction js arbitrary: s xs)
  case Nil
  then show ?case by (simp add: owns_def fun_upd_idem)
next
  case (Cons j js)
  let ?s = "s\<lparr>buffers := (buffers s)(nd_base a \<mapsto> unwrap_step xs j)\<rparr>"
  have o: "owns ?s a (unwrap_step xs j)"
    using Cons.prems by (intro owns_update) (simp_all add: length_unwrap_step)
  have "foldl (unwrap_step_st a) s (j # js) = foldl (unwrap_step_st a) ?s js"
    by (simp add: unwrap_step_st_owns[OF Cons.prems])
  also have "\<dots> = ?s\<lparr>buffers := (buffers ?s)(nd_base a \<mapsto> foldl unwrap_step (unwrap_step xs j) js)\<rparr>"
    by (rule Cons.IH[OF o])
  also have "\<dots> = s\<lparr>buffers := (buffers s)(nd_base a \<mapsto> foldl unwrap_step xs (j # js))\<rparr>"
    by simp
  finally show ?case .
qed

lemma elements_frame:
  "buffers s' (nd_base a) = buffers s (nd_base a) \<Longrightarrow> elements s' a = elements s a"
  by (simp add: elements_def)

lemma interpolate_angles_st_eq:
  assumes "nd_base src_times < next_addr s" "nd_base target_times < next_addr s"
  shows "interpolate_angles_st s src_times angles target_times =
    (interpolate_angles (elements s src_times) (elements s angles) (elements s target_times),
     s\<lparr>buffers := (buffers s)(next_addr s \<mapsto> unwrap (elements s angles)),
       next_addr := Suc (next_addr s)\<rparr>)"
proof -
  obtain s1 a where al: "alloc s (elements s angles) = (s1, a)" by (cases "alloc s (elements s angles)")
  have o: "owns s1 a (elements s angles)" by (rule owns_alloc[OF al])
  have a: "nd_base a = next_addr s" "nd_len a = length (elements s angles)"
    and s1: "s1 = s\<lparr>buffers := (buffers s)(next_addr s \<mapsto> elements s angles),
                     next_addr := Suc (next_addr s)\<rparr>"
    using al by (auto simp: alloc_def)
  let ?s2 = "foldl (unwrap_step_st a) s1 [1..<nd_len a]"
  have s2: "?s2 = s1\<lparr>buffers := (buffers s1)(nd_base a \<mapsto> unwrap (elements s angles))\<rparr>"
    using unwrap_loop_st[OF o] by (simp add: a unwrap_def)
  have o2: "owns ?s2 a (unwrap (elements s angles))"
    unfolding s2 using o by (intro owns_update) (simp_all add: length_unwrap)
  have e1: "elements ?s2 target_times = elements s target_times"
    using assms(2) by (intro elements_frame) (subst s2, simp add: s1 a)
  have e2: "elements ?s2 src_times = elements s src_times"
    using assms(1) by (intro elements_frame) (subst s2, simp add: s1 a)
  have "interpolate_angles_st s src_times angles target_times =
     (case np_interp (elements ?s2 target_times) (elements ?s2 src_times) (elements ?s2 a) of
            Inl e \<Rightarrow> Inl e
          | Inr ys \<Rightarrow> Inr (map (\<lambda>y. py_mod y 360) ys), ?s2)"
    by (simp add: interpolate_angles_st_def np_array_def al Let_def)
  also have "\<dots> = (interpolate_angles (elements s src_times) (elements s angles) (elements s target_times), ?s2)"
    by (simp only: e1 e2 elements_owns[OF o2] interpolate_angles_def)
  also have "?s2 = s\<lparr>buffers := (buffers s)(next_addr s \<mapsto> unwrap (elements s angles)),
       next_addr := Suc (next_addr s)\<rparr>"
    by (subst s2, simp add: s1 a)
  finally show ?thesis .
qed

lemma preserves_refl: "preserves s s"
  by (simp add: preserves_def)

lemma preserves_trans: "preserves s s' \<Longrightarrow> preserves s' s'' \<Longrightarrow> preserves s s''"
  by (auto simp: preserves_def)

lemma preserves_alloc: "alloc s xs = (s', a) \<Longrightarrow> preserves s s'"
  by (auto simp: alloc_def preserves_def)

lemma preserves_new_list: "new_list s ps = (s', p) \<Longrightarrow> preserves s s'"
  by (auto simp: new_list_def preserves_def)

lemma preserves_elements:
  "preserves s s' \<Longrightarrow> nd_base a < next_addr s \<Longrightarrow> elements s' a = elements s a"
  by (simp add: preserves_def elements_def)

lemma preserves_interpolate:
  assumes "nd_base src_times < next_addr s" "nd_base target_times < next_addr s"
  shows "preserves s (snd (interpolate_angles_st s src_times angles target_times))"
  by (simp add: interpolate_angles_st_eq[OF assms] preserves_def)

lemma rotation_columns_st_eq:
  assumes "nd_base ot < next_addr s" "nd_base tt < next_addr s" "\<forall>i. nd_base (col i) < next_addr s"
  shows "fst (rotation_columns_st s ot col tt js) =
           collect (map (\<lambda>i. interpolate_angles (elements s ot) (elements s (col i)) (elements s tt)) js)
       \<and> preserves s (snd (rotation_columns_st s ot col tt js))"
  using assms
proof (induction js arbitrary: s)
  case Nil
  then show ?case by (simp add: preserves_refl)
next
  case (Cons j js)
  let ?r = "interpolate_angles (elements s ot) (elements s (col j)) (elements s tt)"
  let ?s' = "s\<lparr>buffers := (buffers s)(next_addr s \<mapsto> unwrap (elements s (col j))),
       next_addr := Suc (next_addr s)\<rparr>"
  have step: "interpolate_angles_st s ot (col j) tt = (?r, ?s')"
    using Cons.prems by (intro interpolate_angles_st_eq) simp_all
  have p: "preserves s ?s'" by (simp add: preserves_def)
  have b: "nd_base ot < next_addr ?s'" "nd_base tt < next_addr ?s'"
    "\<forall>i. nd_base (col i) < next_addr ?s'"
    using Cons.prems by (auto simp: less_Suc_eq)
  have e: "elements ?s' ot = elements s ot" "elements ?s' tt = elements s tt"
    "\<And>i. elements ?s' (col i) = elements s (col i)"
    using Cons.prems by (simp_all add: preserves_elements[OF p])
  note IH = Cons.IH[OF b]
  show ?case
  proof (cases ?r)
    case (Inl err)
    then show ?thesis using p by (simp add: step)
  next
    case (Inr c)
    obtain r2 s2 where rec: "rotation_columns_st ?s' ot col tt js = (r2, s2)"
      by (cases "rotation_columns_st ?s' ot col tt js")
    from IH rec have r2: "r2 = collect (map (\<lambda>i. interpolate_angles (elements s ot) (elements s (col i)) (elements s tt)) js)"
      and p2: "preserves ?s' s2" by (simp_all add: e)
    have "preserves s s2" using p p2 by (rule preserves_trans)
    then show ?thesis
      using Inr r2 by (auto simp: step rec split: sum.splits)
  qed
qed

lemma length_pose_row: "length (pose_row p) = 6"
  by (simp add: pose_row_def)

lemma pose_row_nth: "i < 6 \<Longrightarrow> pose_row p ! i = chan p i"
  by (simp add: pose_row_def)

lemma concat_rows_nth:
  "i < 6 \<Longrightarrow> k < length ps \<Longrightarrow> concat (map pose_row ps) ! (i + k * 6) = chan (ps ! k) i"
proof (induction ps arbitrary: k)
  case Nil
  then show ?case by simp
next
  case (Cons p ps)
  show ?case
  proof (cases k)
    case 0
    then show ?thesis using Cons.prems by (simp add: nth_append length_pose_row pose_row_nth)
  next
    case (Suc k')
    then have "concat (map pose_row (p # ps)) ! (i + k * 6) =
        concat (map pose_row ps) ! (i + k' * 6)"
      by (simp add: nth_append length_pose_row)
    then show ?thesis using Cons Suc by simp
  qed
qed

lemma column_view:
  assumes "i < 6" "buffers s b = Some (concat (map pose_row ps))"
  shows "elements s \<lparr>nd_base = b, nd_offset = i, nd_stride = 6, nd_len = length ps\<rparr> = column ps i"
  using assms by (auto simp: elements_def column_def concat_rows_nth intro!: nth_equalityI)

lemma collect_append:
  "collect (xs @ ys) =
     (case collect xs of Inl e \<Rightarrow> Inl e
      | Inr a \<Rightarrow> (case collect ys of Inl e \<Rightarrow> Inl e | Inr b \<Rightarrow> Inr (a @ b)))"
  by (induction xs) (auto split: sum.splits)

lemma resample_positions_st_ok:
  assumes "resample_positions_st s positions fs f = (r, s')"
  shows "preserves s s' \<and> agrees s' r (resample_positions (list_at s positions) fs f)"
proof (cases "fs = f")
  case True
  then show ?thesis
    using assms by (auto simp: resample_positions_st_def resample_positions_def preserves_refl agrees_def)
next
  case False
  define ps where "ps = list_at s positions"
  define b where "b = next_addr s"
  define s1 where "s1 = s\<lparr>buffers := (buffers s)(b \<mapsto> concat (map pose_row ps)), next_addr := Suc b\<rparr>"
  define col where "col = (\<lambda>i. \<lparr>nd_base = b, nd_offset = i, nd_stride = 6, nd_len = length ps\<rparr>)"
  define s2 where "s2 = s1\<lparr>buffers := (buffers s1)(Suc b \<mapsto> frame_times (length ps) fs), next_addr := Suc (Suc b)\<rparr>"
  define ot where "ot = \<lparr>nd_base = Suc b, nd_offset = 0, nd_stride = 1, nd_len = length (frame_times (length ps) fs)\<rparr>"
  have a1: "alloc s (concat (map pose_row ps)) =
      (s1, \<lparr>nd_base = b, nd_offset = 0, nd_stride = 1, nd_len = length (concat (map pose_row ps))\<rparr>)"
    by (simp add: alloc_def s1_def b_def)
  have a2: "alloc s1 (frame_times (length ps) fs) = (s2, ot)"
    by (simp add: alloc_def s2_def ot_def s1_def)
  have p2: "preserves s s2"
    by (simp add: preserves_def s2_def s1_def b_def)
  have eot: "elements s2 ot = frame_times (length ps) fs"
    by (intro elements_owns) (simp add: owns_def s2_def ot_def)
  show ?thesis
  proof (cases "ps = [] \<or> f = 0 \<or> fs = 0")
    case True
    then have "resample_positions_st s positions fs f =
        (if ps = [] then Inl IndexError else if f = 0 then Inl ZeroDivisionError else Inl ValueError, s2)"
      using False
      by (auto simp: resample_positions_st_def ps_def[symmetric] a1 a2 Let_def)
    then show ?thesis
      using assms True False p2
      by (auto simp: resample_positions_def ps_def[symmetric] agrees_def)
  next
    case ok: False
    define tts where "tts = np_arange (last (frame_times (length ps) fs)) (1 / f)"
    define s3 where "s3 = s2\<lparr>buffers := (buffers s2)(Suc (Suc b) \<mapsto> tts), next_addr := Suc (Suc (Suc b))\<rparr>"
    define tt where "tt = \<lparr>nd_base = Suc (Suc b), nd_offset = 0, nd_stride = 1, nd_len = length tts\<rparr>"
    have a3: "alloc s2 (np_arange (last (elements s2 ot)) (1 / f)) = (s3, tt)"
      unfolding eot by (simp add: alloc_def s3_def tt_def tts_def s2_def)
    have p3: "preserves s s3"
      by (simp add: preserves_def s3_def s2_def s1_def b_def)
    have ett: "elements s3 tt = tts"
      by (intro elements_owns) (simp add: owns_def s3_def tt_def)
    have eot3: "elements s3 ot = frame_times (length ps) fs"
      by (intro elements_owns) (simp add: owns_def s3_def s2_def ot_def)
    have ecol: "elements s3 (col i) = column ps i" if "i < 6" for i
      unfolding col_def using that
      by (intro column_view) (simp_all add: s3_def s2_def s1_def)
    define P where "P = map (\<lambda>i. np_interp tts (frame_times (length ps) fs) (column ps i)) [0..<3]"
    define R where "R = map (\<lambda>i. interpolate_angles (frame_times (length ps) fs) (column ps i) tts) [3..<6]"
    have P: "map (\<lambda>i. np_interp (elements s3 tt) (elements s3 ot) (elements s3 (col i))) [0..<3] = P"
      by (simp add: P_def ett eot3 ecol upt3)
    have bases: "nd_base ot < next_addr s3" "nd_base tt < next_addr s3"
      "\<forall>i. nd_base (col i) < next_addr s3"
      by (simp_all add: s3_def ot_def tt_def col_def)
    obtain rr s4 where rot: "rotation_columns_st s3 ot col tt [3..<6] = (rr, s4)"
      by (cases "rotation_columns_st s3 ot col tt [3..<6]")
    from rotation_columns_st_eq[OF bases, of "[3..<6]"] rot
    have rr: "rr = collect R" and p4: "preserves s3 s4"
      by (simp_all add: R_def ett eot3 ecol upt3)
    have p34: "preserves s s4" using p3 p4 by (rule preserves_trans)
    have pure: "resample_positions ps fs f =
        (case collect P of Inl e \<Rightarrow> Inl e
         | Inr pcols \<Rightarrow> (case collect R of Inl e \<Rightarrow> Inl e
             | Inr rcols \<Rightarrow> Inr (rows (length tts) (pcols @ rcols))))"
      using ok False
      by (simp add: resample_positions_def Let_def P_def R_def tts_def collect_append
          split: sum.splits)
    have "resample_positions_st s positions fs f = interpolate_columns_st s3 ot col tt"
      using ok False
      by (simp add: resample_positions_st_def ps_def[symmetric] a1 a2 a3 Let_def col_def)
    also have "\<dots> =
        (case collect P of Inl e \<Rightarrow> (Inl e, s3)
         | Inr pcols \<Rightarrow> (case rr of Inl e \<Rightarrow> (Inl e, s4)
             | Inr rcols \<Rightarrow>
                 (let (s5, out) = new_list s4 (rows (nd_len tt) (pcols @ rcols)) in (Inr out, s5))))"
      unfolding interpolate_columns_st_def P rot
      by (simp split: sum.splits)
    finally have st: "resample_positions_st s positions fs f =
        (case collect P of Inl e \<Rightarrow> (Inl e, s3)
         | Inr pcols \<Rightarrow> (case rr of Inl e \<Rightarrow> (Inl e, s4)
             | Inr rcols \<Rightarrow>
                 (let (s5, out) = new_list s4 (rows (nd_len tt) (pcols @ rcols)) in (Inr out, s5))))" .
    note pure = pure[unfolded ps_def]
    have len: "nd_len tt = length tts" by (simp add: tt_def)
    show ?thesis
    proof (cases "collect P")
      case (Inl e)
      then show ?thesis using assms p3 by (auto simp: st pure agrees_def)
    next
      case pc: (Inr pcols)
      show ?thesis
      proof (cases "collect R")
        case (Inl e)
        then show ?thesis using assms p34 pc rr by (auto simp: st pure agrees_def)
      next
        case (Inr rcols)
        then have "r = Inr (next_addr s4)"
          and s': "s' = s4\<lparr>pylists := (pylists s4)(next_addr s4 \<mapsto> rows (length tts) (pcols @ rcols)),
                   next_addr := Suc (next_addr s4)\<rparr>"
          using assms pc rr by (auto simp: st new_list_def len)
        moreover have "preserves s4 s'" by (simp add: s' preserves_def)
        with p34 have "preserves s s'" by (rule preserves_trans)
        moreover have "list_at s' (next_addr s4) = rows (length tts) (pcols @ rcols)"
          by (simp add: s' list_at_def)
        ultimately show ?thesis using pc Inr by (simp add: pure agrees_def)
      qed
    qed
  qed
qed

lemma list_at_preserved: "preserves s s' \<Longrightarrow> p < next_addr s \<Longrightarrow> list_at s' p = list_at s p"
  by (simp add: preserves_def list_at_def)

subsection \<open>The claims\<close>

text \<open>
  C1. Identity: when the two rates are equal, \<open>resample_positions\<close> returns the input
  track itself, whatever the track and the rate, and nothing is interpolated. The test
  is the equality of the two rates: any two rates that differ, however little, leave
  the fast path (on the empty track the fast path would return the empty track, and the
  call raises instead).
\<close>

theorem resample_identity:
  "resample_positions track fps fps = Inr track
   \<and> (source_fps \<noteq> target_fps \<longrightarrow> resample_positions [] source_fps target_fps \<noteq> Inr [])"
  by (simp add: resample_positions_def)

theorem resample_identity_witness:
  "(60::real) \<noteq> 60 + 1 / 1000000
   \<and> resample_positions [] 60 (60 + 1 / 1000000) \<noteq> Inr []
   \<and> resample_positions [(1, 2, 3, 4, 5, 6), (2, 3, 4, 5, 6, 7)] 60 60 =
       Inr [(1, 2, 3, 4, 5, 6), (2, 3, 4, 5, 6, 7)]"
  using resample_identity [of "[(1, 2, 3, 4, 5, 6), (2, 3, 4, 5, 6, 7)]" 60 60 "60 + 1 / 1000000"]
  by simp

text \<open>
  C2. The unwrap loop adds to every sample \<open>k\<close> the corrections of all the jumps at
  or before it: whenever two consecutive raw values differ by more than 180 degrees,
  \<open>- 360\<close> (positive jump) or \<open>+ 360\<close> (negative jump) is added to that sample and
  to every later one. For \<open>[350, 10]\<close> the unwrapped values are \<open>[350, 370]\<close> and the
  value interpolated halfway between the two samples is 0 degrees, on the short arc.
\<close>

theorem unwrap_corrects_jumps:
  "(k < length angles \<longrightarrow>
      unwrap angles ! k = angles ! k + (\<Sum>j = 1..k. correction (angles ! j - angles ! (j - 1))))
   \<and> length (unwrap angles) = length angles
   \<and> unwrap [350, 10] = [350, 370]
   \<and> (0 < t \<longrightarrow> interpolate_angles [0, t] [350, 10] [t / 2] = Inr [0])"
proof (intro conjI impI)
  show "unwrap [350, 10] = [350, 370]"
    by (simp add: unwrap_def unwrap_step_def slice_add_def slice_sub_def)
qed (simp_all add: unwrap_nth length_unwrap interp_mid)

theorem unwrap_corrects_jumps_witness:
  "(2::nat) < length [10, 350, 340, 20 :: real] \<and> (0::real) < 1
   \<and> unwrap [10, 350, 340, 20] ! 2 = - 20
   \<and> unwrap [10, 350, 340, 20] ! 3 = 20
   \<and> interpolate_angles [0, 1] [350, 10] [1 / 2] = Inr [0]"
  using unwrap_corrects_jumps [of 2 "[10, 350, 340, 20]" 1]
    unwrap_corrects_jumps [of 3 "[10, 350, 340, 20]" 1]
  by (simp add: correction_def numeral_eq_Suc atLeastAtMostSuc_conv)






text \<open>
  C5, as the code has it. With different rates an empty track raises \<^verbatim>\<open>IndexError\<close>
  at \<^verbatim>\<open>original_times[-1]\<close>, and a track of one pose (rates not zero) returns the
  empty track: its last source time is 0, so the target grid is empty.
\<close>

theorem resample_short_track:
  "(source_fps \<noteq> target_fps \<longrightarrow> resample_positions [] source_fps target_fps = Inl IndexError)
   \<and> (source_fps \<noteq> target_fps \<and> source_fps \<noteq> 0 \<and> target_fps \<noteq> 0 \<longrightarrow>
        resample_positions [p] source_fps target_fps = Inr [])"
  by (simp add: resample_positions_eq np_arange_def) (simp add: resample_positions_def)

theorem resample_short_track_witness:
  "(60::real) \<noteq> 30 \<and> (60::real) \<noteq> 0 \<and> (30::real) \<noteq> 0
   \<and> resample_positions [] 60 30 = Inl IndexError
   \<and> resample_positions [(1, 2, 3, 4, 5, 6)] 60 30 = Inr []"
  using resample_short_track [of 60 30 "(1, 2, 3, 4, 5, 6)"] by simp

text \<open>
  C5 as stated wants an error for every track of fewer than two poses. A track of one
  pose is resampled to the empty track without any error.
\<close>

theorem resample_short_track_counterexample:
  "resample_positions [(1, 2, 3, 4, 5, 6)] 60 30 = Inr []"
  by (simp add: resample_positions_eq np_arange_def)

text \<open>
  C6. For the playback directory, the extracted track is the remapped pose
  \<open>(-y, z + 16, -x, -roll, -pitch, yaw)\<close> of every frame record that exposes position
  and rotation data, in order, one pose each; every other record (no
  \<^verbatim>\<open>client_data\<close>, no position or no rotation) is skipped, and extraction has no
  failing case. Ten records of which three lack rotation data give seven poses.
\<close>

theorem extraction_skips_incomplete:
  assumes "name d = ''Playback''"
    and "\<forall>e \<in> set before. name e \<noteq> ''Playback''"
    and "\<forall>e \<in> set after. name e \<noteq> ''Playback''"
  shows "fst (extract_track \<lparr>directories = before @ d # after\<rparr>) =
           map remapped (filter exposes (macros d))
       \<and> length (fst (extract_track \<lparr>directories = before @ d # after\<rparr>)) =
           length (macros d) - length (filter (\<lambda>m. \<not> exposes m) (macros d))
       \<and> (\<forall>m cd pos rot.
             client_data m = Some cd \<and> position cd = Some pos \<and> rotation cd = Some rot \<longrightarrow>
             exposes m \<and>
             remapped m = (- pos_y pos, pos_z pos + 16, - pos_x pos, - roll rot, - pitch rot, yaw rot))
       \<and> (\<forall>m. \<not> exposes m \<longleftrightarrow>
             (case client_data m of None \<Rightarrow> True
              | Some cd \<Rightarrow> position cd = None \<or> rotation cd = None))"
proof -
  have "fst (extract_track \<lparr>directories = before @ d # after\<rparr>) =
           map remapped (filter exposes (macros d))"
    using assms by (simp add: extract_single)
  moreover have "length (filter exposes (macros d)) =
      length (macros d) - length (filter (\<lambda>m. \<not> exposes m) (macros d))"
    by (rule length_filter_compl)
  ultimately show ?thesis
    by (auto simp: exposes_def remapped_def split: option.splits)
qed

theorem extraction_skips_incomplete_witness:
  "name ten_records = ''Playback''
   \<and> length (macros ten_records) = 10
   \<and> length (filter (\<lambda>m. \<not> exposes m) (macros ten_records)) = 3
   \<and> fst (extract_track \<lparr>directories = [ten_records]\<rparr>) =
       [(- 2, 19, - 1, - 10, - 20, 30), (- 2, 19, - 1, - 10, - 20, 30),
        (- 2, 19, - 1, - 10, - 20, 30), (- 2, 19, - 1, - 10, - 20, 30),
        (- 2, 19, - 1, - 10, - 20, 30), (- 2, 19, - 1, - 10, - 20, 30),
        (- 2, 19, - 1, - 10, - 20, 30)]
   \<and> length (fst (extract_track \<lparr>directories = [ten_records]\<rparr>)) = 7"
  using extraction_skips_incomplete [of ten_records "[]" "[]"]
  by (simp add: ten_records_def complete_record_def record_without_rotation_def exposes_def
      remapped_def)

text \<open>
  C7, as the code has it. The source frame time is the recorded time divided by the
  frame count when the count is positive, and the default \<open>1/60\<close> for every other
  count (zero or negative), so the division never has a zero divisor; the source rate
  is \<open>1 / source_frame_time\<close>, which raises when that time is zero.
\<close>

theorem source_frame_time_default:
  assumes "name d = ''Playback''"
    and "\<forall>e \<in> set before. name e \<noteq> ''Playback''"
    and "\<forall>e \<in> set after. name e \<noteq> ''Playback''"
  shows "snd (extract_track \<lparr>directories = before @ d # after\<rparr>) =
           (if 0 < frames d then time d / real_of_int (frames d) else 1 / 60)
       \<and> source_fps_of \<lparr>directories = before @ d # after\<rparr> =
           (if snd (extract_track \<lparr>directories = before @ d # after\<rparr>) = 0
            then Inl ZeroDivisionError
            else Inr (1 / snd (extract_track \<lparr>directories = before @ d # after\<rparr>)))
       \<and> (frames d \<le> 0 \<longrightarrow> source_fps_of \<lparr>directories = before @ d # after\<rparr> = Inr 60)"
  using assms by (simp add: extract_single source_fps_of_def)

theorem source_frame_time_default_witness:
  "name ten_records = ''Playback''
   \<and> snd (extract_track \<lparr>directories = [ten_records]\<rparr>) = 1 / 50
   \<and> source_fps_of \<lparr>directories = [ten_records]\<rparr> = Inr 50
   \<and> name empty_playback = ''Playback'' \<and> frames empty_playback \<le> 0
   \<and> snd (extract_track \<lparr>directories = [empty_playback]\<rparr>) = 1 / 60
   \<and> source_fps_of \<lparr>directories = [empty_playback]\<rparr> = Inr 60"
proof -
  have z: "name empty_playback = ''Playback''" "frames empty_playback = 0"
    by (simp_all add: empty_playback_def)
  have c1: "snd (extract_track \<lparr>directories = [empty_playback]\<rparr>) = 1 / 60"
    using source_frame_time_default [of empty_playback "[]" "[]"] by (simp add: z)
  have c2: "source_fps_of \<lparr>directories = [empty_playback]\<rparr> = Inr 60"
    using source_frame_time_default [of empty_playback "[]" "[]"] by (simp add: z c1)
  note c = c1 c2
  have d: "name ten_records = ''Playback''" "frames ten_records = 10" "time ten_records = 1 / 5"
    by (simp_all add: ten_records_def)
  have a: "snd (extract_track \<lparr>directories = [ten_records]\<rparr>) = 1 / 50"
    using source_frame_time_default [of ten_records "[]" "[]"] by (simp add: d)
  have b: "source_fps_of \<lparr>directories = [ten_records]\<rparr> = Inr 50"
    using source_frame_time_default [of ten_records "[]" "[]"] by (simp add: d a)
  show ?thesis using a b c d(1) z by simp
qed

text \<open>
  C7 as stated has the default exactly for a frame count of zero, and the quotient of
  time and count otherwise. A playback directory reporting \<open>- 1\<close> frames and a time
  of 1 gets the default \<open>1/60\<close>, not the quotient \<open>- 1\<close>.
\<close>

theorem source_frame_time_default_counterexample:
  "snd (extract_track
     \<lparr>directories = [\<lparr>name = ''Playback'', frames = - 1, time = 1, macros = []\<rparr>]\<rparr>) = 1 / 60
   \<and> (- 1 :: int) \<noteq> 0
   \<and> (1 :: real) / real_of_int (- 1) \<noteq> 1 / 60"
  by (simp add: extract_track_def)

text \<open>
  C8. For a target rate other than zero the file is written, and after the ten lines
  of the skeleton its lines are \<^verbatim>\<open>MOTION\<close>, the frame count (the decimal numeral of
  the number of poses), the frame time \<open>1 / target_fps\<close> in the format \<^verbatim>\<open>.6f\<close>,
  and then one line per pose, in order: its six channels in that format, separated by
  single spaces. The format writes a sign, the integer digits, a point and exactly six
  fraction digits, which denote the value rounded to the nearest millionth. At 30
  frames per second the frame time field is \<^verbatim>\<open>0.033333\<close>.
\<close>

theorem motion_block:
  "(target_fps \<noteq> 0 \<longrightarrow>
      (\<exists>text. serialize track target_fps = Inr text \<and>
         drop 10 (text_lines text) =
           [''MOTION'',
            ''Frames: '' @ str_nat (length track),
            ''Frame Time: '' @ fmt6 (1 / real_of_int target_fps)] @
           map (\<lambda>p. fmt6 (chan p 0) @ '' '' @ fmt6 (chan p 1) @ '' '' @ fmt6 (chan p 2) @ '' '' @
                    fmt6 (chan p 3) @ '' '' @ fmt6 (chan p 4) @ '' '' @ fmt6 (chan p 5)) track))
   \<and> read_nat (str_nat (length track)) = length track
   \<and> (\<exists>whole frac. fmt6 v = (if v < 0 then ''-'' else []) @ whole @ ''.'' @ frac
        \<and> length frac = 6 \<and> set whole \<subseteq> digit_chars \<and> set frac \<subseteq> digit_chars
        \<and> real (read_nat whole * 1000000 + read_nat frac) =
            real_of_int (round_half_even (\<bar>v\<bar> * 1000000)))
   \<and> \<bar>real_of_int (round_half_even (\<bar>v\<bar> * 1000000)) - \<bar>v\<bar> * 1000000\<bar> \<le> 1 / 2
   \<and> fmt6 (1 / real_of_int 30) = ''0.033333''"
proof (intro conjI impI)
  assume "target_fps \<noteq> 0"
  then show "\<exists>text. serialize track target_fps = Inr text \<and>
         drop 10 (text_lines text) =
           [''MOTION'',
            ''Frames: '' @ str_nat (length track),
            ''Frame Time: '' @ fmt6 (1 / real_of_int target_fps)] @
           map (\<lambda>p. fmt6 (chan p 0) @ '' '' @ fmt6 (chan p 1) @ '' '' @ fmt6 (chan p 2) @ '' '' @
                    fmt6 (chan p 3) @ '' '' @ fmt6 (chan p 4) @ '' '' @ fmt6 (chan p 5)) track"
    using length_bvh_header
    by (simp add: serialize_def text_lines_write_bvh pose_text_def)
next
  show "fmt6 (1 / real_of_int 30) = ''0.033333''"
    by (simp add: fmt_eval)
next
  show "read_nat (str_nat (length track)) = length track"
    by (rule read_nat_str_nat)
next
  show "\<exists>whole frac. fmt6 v = (if v < 0 then ''-'' else []) @ whole @ ''.'' @ frac
        \<and> length frac = 6 \<and> set whole \<subseteq> digit_chars \<and> set frac \<subseteq> digit_chars
        \<and> real (read_nat whole * 1000000 + read_nat frac) =
            real_of_int (round_half_even (\<bar>v\<bar> * 1000000))"
    by (rule fmt6_shape)
next
  show "\<bar>real_of_int (round_half_even (\<bar>v\<bar> * 1000000)) - \<bar>v\<bar> * 1000000\<bar> \<le> 1 / 2"
    by (rule round_half_even_near)
qed

theorem motion_block_witness:
  "(30::int) \<noteq> 0
   \<and> (\<exists>text. serialize [(1, 5 / 2, - 3, 350, 0, 1 / 128)] 30 = Inr text \<and>
         drop 10 (text_lines text) =
           [''MOTION'', ''Frames: 1'', ''Frame Time: 0.033333'',
            ''1.000000 2.500000 -3.000000 350.000000 0.000000 0.007812''])"
proof -
  have "\<exists>text. serialize [(1, 5 / 2, - 3, 350, 0, 1 / 128)] 30 = Inr text \<and>
         drop 10 (text_lines text) =
           [''MOTION'',
            ''Frames: '' @ str_nat (length [(1::real, 5 / 2 :: real, - 3 :: real, 350 :: real, 0 :: real, 1 / 128 :: real)]),
            ''Frame Time: '' @ fmt6 (1 / real_of_int 30)] @
           map (\<lambda>p. fmt6 (chan p 0) @ '' '' @ fmt6 (chan p 1) @ '' '' @ fmt6 (chan p 2) @ '' '' @
                    fmt6 (chan p 3) @ '' '' @ fmt6 (chan p 4) @ '' '' @ fmt6 (chan p 5))
             [(1, 5 / 2, - 3, 350, 0, 1 / 128)]"
    by (rule motion_block [of 30 "[(1, 5 / 2, - 3, 350, 0, 1 / 128)]" 0, THEN conjunct1, THEN mp])
      simp
  then show ?thesis
    by (simp add: fmt6_samples str_nat_small digit_char_def)
qed

text \<open>
  C9. Neither function changes its input. After \<open>interpolate_angles\<close> on arrays of
  the store, every buffer and list that existed before the call has its contents
  unchanged, the caller's \<open>angles\<close> array shows the same elements, and the result is
  the one computed from the values before the call: the corrections went to the copy.
  After \<open>resample_positions\<close> on a list of the store the same holds, the caller's
  list has the same poses, and the returned list holds the resampled track.
\<close>

theorem inputs_not_mutated:
  "(nd_base src_times < next_addr s \<and> nd_base angles < next_addr s \<and>
    nd_base target_times < next_addr s \<longrightarrow>
      preserves s (snd (interpolate_angles_st s src_times angles target_times))
      \<and> elements (snd (interpolate_angles_st s src_times angles target_times)) angles =
          elements s angles
      \<and> fst (interpolate_angles_st s src_times angles target_times) =
          interpolate_angles (elements s src_times) (elements s angles) (elements s target_times))
   \<and> (positions < next_addr s \<longrightarrow>
      preserves s (snd (resample_positions_st s positions source_fps target_fps))
      \<and> list_at (snd (resample_positions_st s positions source_fps target_fps)) positions =
          list_at s positions
      \<and> agrees (snd (resample_positions_st s positions source_fps target_fps))
            (fst (resample_positions_st s positions source_fps target_fps))
            (resample_positions (list_at s positions) source_fps target_fps))"
proof (intro conjI impI)
  assume b: "nd_base src_times < next_addr s \<and> nd_base angles < next_addr s \<and>
    nd_base target_times < next_addr s"
  then have eq: "interpolate_angles_st s src_times angles target_times =
    (interpolate_angles (elements s src_times) (elements s angles) (elements s target_times),
     s\<lparr>buffers := (buffers s)(next_addr s \<mapsto> unwrap (elements s angles)),
       next_addr := Suc (next_addr s)\<rparr>)"
    by (intro interpolate_angles_st_eq) simp_all
  show p: "preserves s (snd (interpolate_angles_st s src_times angles target_times))"
    by (simp add: eq preserves_def)
  show "elements (snd (interpolate_angles_st s src_times angles target_times)) angles =
          elements s angles"
    using p b by (intro preserves_elements) simp_all
  show "fst (interpolate_angles_st s src_times angles target_times) =
          interpolate_angles (elements s src_times) (elements s angles) (elements s target_times)"
    by (simp add: eq)
next
  assume b: "positions < next_addr s"
  obtain r s' where rs: "resample_positions_st s positions source_fps target_fps = (r, s')"
    by (cases "resample_positions_st s positions source_fps target_fps")
  from resample_positions_st_ok[OF rs]
  have p: "preserves s s'"
    and a: "agrees s' r (resample_positions (list_at s positions) source_fps target_fps)"
    by simp_all
  show "preserves s (snd (resample_positions_st s positions source_fps target_fps))"
    using p by (simp add: rs)
  show "list_at (snd (resample_positions_st s positions source_fps target_fps)) positions =
          list_at s positions"
    using list_at_preserved[OF p b] by (simp add: rs)
  show "agrees (snd (resample_positions_st s positions source_fps target_fps))
            (fst (resample_positions_st s positions source_fps target_fps))
            (resample_positions (list_at s positions) source_fps target_fps)"
    using a by (simp add: rs)
qed

theorem inputs_not_mutated_witness:
  "nd_base sample_times < next_addr sample_store
   \<and> nd_base sample_angles < next_addr sample_store
   \<and> nd_base sample_targets < next_addr sample_store
   \<and> (3::nat) < next_addr sample_store
   \<and> elements (snd (interpolate_angles_st sample_store sample_times sample_angles
        sample_targets)) sample_angles = [350, 10]
   \<and> fst (interpolate_angles_st sample_store sample_times sample_angles sample_targets) =
        Inr [0]
   \<and> list_at (snd (resample_positions_st sample_store 3 2 4)) 3 =
        [(1, 2, 3, 350, 0, - 10), (2, 3, 4, 10, 0, - 20)]"
proof -
  have e: "elements sample_store sample_times = [0, 1]"
    "elements sample_store sample_angles = [350, 10]"
    "elements sample_store sample_targets = [1 / 2]"
    by (simp_all add: elements_def sample_store_def sample_times_def sample_angles_def
        sample_targets_def upt_rec)
  have l: "list_at sample_store 3 = [(1, 2, 3, 350, 0, - 10), (2, 3, 4, 10, 0, - 20)]"
    by (simp add: list_at_def sample_store_def)
  have b: "nd_base sample_times < next_addr sample_store"
    "nd_base sample_angles < next_addr sample_store"
    "nd_base sample_targets < next_addr sample_store"
    "(3::nat) < next_addr sample_store"
    by (simp_all add: sample_store_def sample_times_def sample_angles_def sample_targets_def)
  have m: "interpolate_angles [0, 1] [350, 10] [1 / 2] = Inr [0]"
    using interp_mid[of 1] by simp
  show ?thesis
    using inputs_not_mutated [of sample_times sample_store sample_angles sample_targets 3 2 4] b
    by (simp add: e l m)
qed

text \<open>
  C10. For a track of at least two poses and two different positive rates, the result
  is a non-empty track whose first pose has the position channels of the first source
  pose and its rotation channels reduced modulo 360.
\<close>

theorem first_pose_preserved:
  assumes "2 \<le> length track" "0 < source_fps" "0 < target_fps" "source_fps \<noteq> target_fps"
  shows "\<exists>p out. resample_positions track source_fps target_fps = Inr (p # out)
           \<and> chan p 0 = chan (hd track) 0 \<and> chan p 1 = chan (hd track) 1
           \<and> chan p 2 = chan (hd track) 2
           \<and> chan p 3 = py_mod (chan (hd track) 3) 360
           \<and> chan p 4 = py_mod (chan (hd track) 4) 360
           \<and> chan p 5 = py_mod (chan (hd track) 5) 360"
proof -
  have ne: "track \<noteq> []" using assms(1) by auto
  have "0 < real (length track - 1)" using assms(1) by simp
  then have "0 < real (length track - 1) / source_fps"
    using assms(2) by (intro divide_pos_pos)
  moreover have "0 < 1 / target_fps" using assms(3) by simp
  ultimately obtain ts
    where ts: "np_arange (real (length track - 1) / source_fps) (1 / target_fps) = 0 # ts"
    using np_arange_start[of "real (length track - 1) / source_fps" "1 / target_fps"] by blast
  have pos: "position_at track source_fps i 0 = chan (hd track) i" for i
    using assms(1,2) ne by (simp add: position_at_def interp_point_start length_column hd_column)
  have rot: "rotation_at track source_fps i 0 = py_mod (chan (hd track) i) 360" for i
  proof -
    have "column track i \<noteq> []" using ne by (simp add: column_def)
    then show ?thesis
      using assms(1,2) ne
      by (simp add: rotation_at_def interp_point_start length_column length_unwrap hd_unwrap hd_column)
  qed
  have "resample_positions track source_fps target_fps =
    Inr (map (\<lambda>t. (position_at track source_fps 0 t, position_at track source_fps 1 t,
                    position_at track source_fps 2 t, rotation_at track source_fps 3 t,
                    rotation_at track source_fps 4 t, rotation_at track source_fps 5 t))
          (np_arange (real (length track - 1) / source_fps) (1 / target_fps)))"
    using assms ne by (intro resample_positions_eq) auto
  then show ?thesis
    unfolding ts by (simp add: pos rot)
qed

theorem first_pose_preserved_witness:
  "(2::nat) \<le> length [(1, 2, 3, 350, 0, - 10), (2, 3, 4, 10, 0, - 20), (5, 5, 5, 20, 0, - 30) :: pose]
   \<and> (0::real) < 2 \<and> (0::real) < 4 \<and> (2::real) \<noteq> 4
   \<and> (\<exists>p out. resample_positions [(1, 2, 3, 350, 0, - 10), (2, 3, 4, 10, 0, - 20), (5, 5, 5, 20, 0, - 30)] 2 4 = Inr (p # out)
         \<and> chan p 0 = 1 \<and> chan p 1 = 2 \<and> chan p 2 = 3 \<and> chan p 3 = 350 \<and> chan p 4 = 0 \<and> chan p 5 = 350)"
  using first_pose_preserved [of "[(1, 2, 3, 350, 0, - 10), (2, 3, 4, 10, 0, - 20), (5, 5, 5, 20, 0, - 30)]" 2 4]
  by (simp add: py_mod_def)

end
